theory Spec2Isabelle
  imports Main "HOL-Library.Sublist"
begin

section \<open>The node model (types.ts)\<close>

text \<open>
  \<^verbatim>\<open>
  export interface FileNode {
    name: string;
    type: 'file' | 'directory';
    content?: string;
    children?: FileNode[];
    language?: 'go' | 'yaml' | 'markdown' | 'shell';
  }
  \<close>
  An optional field is an \<open>option\<close>: \<open>None\<close> is JavaScript's \<open>undefined\<close>. A directory
  with \<open>children: []\<close> is \<open>Some []\<close>, which JavaScript treats as truthy, unlike a missing
  \<open>children\<close>.
\<close>

datatype FileType = File | Directory

datatype Language = Go | Yaml | Markdown | Shell

datatype FileNode = FileNode
  (name: string)
  (type: FileType)
  (content: "string option")
  (children: "FileNode list option")
  (language: "Language option")

section \<open>The default selection (App.tsx, findDefaultFile)\<close>

text \<open>
  \<^verbatim>\<open>
  const findDefaultFile = (nodes: FileNode[]): FileNode | null => {
    for (const node of nodes) {
      if (node.name === 'protocol.md') return node;
      if (node.children) {
        const found = findDefaultFile(node.children);
        if (found) return found;
      }
    }
    return null;
  };
  \<close>
  The loop over \<open>nodes\<close> is the recursion on the list, the recursive call the one on the
  children. \<open>null\<close> is \<open>None\<close>. The function has no statement that throws.
\<close>

fun findDefaultFile :: "FileNode list \<Rightarrow> FileNode option" where
  "findDefaultFile [] = None"
| "findDefaultFile (FileNode n t c ch l # rest) =
     (if n = ''protocol.md'' then Some (FileNode n t c ch l)
      else case ch of
        None \<Rightarrow> findDefaultFile rest
      | Some cs \<Rightarrow>
          (case findDefaultFile cs of
             Some found \<Rightarrow> Some found
           | None \<Rightarrow> findDefaultFile rest))"

text \<open>
  The specification's words, not the code's: the depth-first pre-order sequence of a
  forest (a node before its children, the children in their stored order, then the
  node's later siblings), and the same sequence with the depth of each node.
\<close>

fun preorder :: "FileNode list \<Rightarrow> FileNode list" where
  "preorder [] = []"
| "preorder (FileNode n t c ch l # rest) =
     FileNode n t c ch l
     # (case ch of None \<Rightarrow> [] | Some cs \<Rightarrow> preorder cs)
     @ preorder rest"

fun preorder_depth :: "nat \<Rightarrow> FileNode list \<Rightarrow> (FileNode \<times> nat) list" where
  "preorder_depth d [] = []"
| "preorder_depth d (FileNode n t c ch l # rest) =
     (FileNode n t c ch l, d)
     # (case ch of None \<Rightarrow> [] | Some cs \<Rightarrow> preorder_depth (d + 1) cs)
     @ preorder_depth d rest"

section \<open>The tree renderer (components/FileTree.tsx)\<close>

text \<open>
  \<^verbatim>\<open>
  const isSelected = selectedFile?.name === node.name
                  && selectedFile?.content === node.content;
  \<close>
  \<open>selectedFile?.name\<close> is \<open>undefined\<close> when \<open>selectedFile\<close> is \<open>null\<close>, and
  \<open>selectedFile?.content\<close> is \<open>undefined\<close> when \<open>selectedFile\<close> is \<open>null\<close> or has no content.
\<close>

definition isSelected :: "FileNode option \<Rightarrow> FileNode \<Rightarrow> bool" where
  "isSelected sel nd \<longleftrightarrow>
     map_option name sel = Some (name nd) \<and> Option.bind sel content = content nd"

text \<open>
  A mounted \<open>FileTreeNode\<close> component: its \<open>node\<close> prop, its own state
  \<open>const [isOpen, setIsOpen] = useState(true)\<close>, and the components of the \<open>FileTree\<close> it
  renders below its row (none while it is closed or its node has no children).
  React keeps the state of a component while it stays mounted and discards it when it
  is unmounted; a component mounted again starts from \<open>useState(true)\<close>.
\<close>

datatype FileTreeNode = FileTreeNode
  (node: FileNode)
  (isOpen: bool)
  (subtree: "FileTreeNode list")

text \<open>
  The first render of \<open><FileTree nodes={nodes} .../>\<close>: one component per node, in the
  order of \<open>nodes.map\<close>, each with \<open>isOpen = true\<close>, and below it
  \<open>{isOpen && node.children && <FileTree nodes={node.children} level={level + 1} .../>}\<close>.
\<close>

fun mountTree :: "FileNode list \<Rightarrow> FileTreeNode list" where
  "mountTree [] = []"
| "mountTree (FileNode n t c ch l # rest) =
     FileTreeNode (FileNode n t c ch l) True
       (case ch of None \<Rightarrow> [] | Some cs \<Rightarrow> mountTree cs)
     # mountTree rest"

text \<open>
  What a row shows: the name, whether it carries the highlight classes
  (\<open>isSelected ? 'bg-slate-700 border-l-2 border-cyan-400' : ''\<close>), its left padding
  \<open>level * 12 + 8\<close>, and the expand indicator: \<open>ChevronDown\<close> (\<open>Some True\<close>) or
  \<open>ChevronRight\<close> (\<open>Some False\<close>) on a directory row, a spacer (\<open>None\<close>) on a file row.
\<close>

record Row =
  label :: string
  highlighted :: bool
  paddingLeft :: nat
  chevron :: "bool option"

definition FileTreeNode_row :: "FileNode option \<Rightarrow> nat \<Rightarrow> FileNode \<Rightarrow> bool \<Rightarrow> Row" where
  "FileTreeNode_row sel level nd opn =
     \<lparr>label = name nd,
      highlighted = isSelected sel nd,
      paddingLeft = level * 12 + 8,
      chevron = (if type nd = Directory then Some opn else None)\<rparr>"

text \<open>The rows of a rendered \<open>FileTree\<close>, top to bottom.\<close>

fun FileTree :: "FileNode option \<Rightarrow> nat \<Rightarrow> FileTreeNode list \<Rightarrow> Row list" where
  "FileTree sel level [] = []"
| "FileTree sel level (FileTreeNode nd opn sub # rest) =
     FileTreeNode_row sel level nd opn
     # (if opn \<and> children nd \<noteq> None then FileTree sel (level + 1) sub else [])
     @ FileTree sel level rest"

text \<open>
  \<^verbatim>\<open>
  const handleClick = () => {
    if (node.type === 'directory') {
      setIsOpen(!isOpen);
    } else {
      onSelect(node);
    }
  };
  \<close>
  The handler calls one of two setters; which one, and with what, is its result.
\<close>

datatype Effect = SetIsOpen bool | OnSelect FileNode

definition handleClick :: "FileNode \<Rightarrow> bool \<Rightarrow> Effect" where
  "handleClick nd opn = (if type nd = Directory then SetIsOpen (\<not> opn) else OnSelect nd)"

text \<open>
  A rendered row is addressed by the chain of React keys (\<open>key={index}\<close>) from the top
  \<open>FileTree\<close> down to it. A position below a closed component addresses nothing: no row
  is rendered there.
\<close>

fun rowAt :: "nat list \<Rightarrow> FileTreeNode list \<Rightarrow> FileTreeNode option" where
  "rowAt [] insts = None"
| "rowAt [i] insts = (if i < length insts then Some (insts ! i) else None)"
| "rowAt (i # j # p) insts =
     (if i < length insts \<and> isOpen (insts ! i) \<and> children (node (insts ! i)) \<noteq> None
      then rowAt (j # p) (subtree (insts ! i)) else None)"

definition flagAt :: "nat list \<Rightarrow> FileTreeNode list \<Rightarrow> bool option" where
  "flagAt p insts = map_option isOpen (rowAt p insts)"

text \<open>
  \<open>setIsOpen b\<close> on one component, followed by its re-render: setting the value it
  already has changes nothing; closing unmounts the \<open>FileTree\<close> below the row; opening
  mounts it afresh.
\<close>

fun setIsOpen :: "bool \<Rightarrow> FileTreeNode \<Rightarrow> FileTreeNode" where
  "setIsOpen b (FileTreeNode nd opn sub) =
     (if b = opn then FileTreeNode nd opn sub
      else FileTreeNode nd b
        (if b then (case children nd of None \<Rightarrow> [] | Some cs \<Rightarrow> mountTree cs) else []))"

text \<open>The same on the component at a position of the rendered tree.\<close>

fun setIsOpenAt :: "nat list \<Rightarrow> bool \<Rightarrow> FileTreeNode list \<Rightarrow> FileTreeNode list" where
  "setIsOpenAt [] b insts = insts"
| "setIsOpenAt [i] b insts =
     (if i < length insts then insts[i := setIsOpen b (insts ! i)] else insts)"
| "setIsOpenAt (i # j # p) b insts =
     (if i < length insts \<and> isOpen (insts ! i) \<and> children (node (insts ! i)) \<noteq> None
      then insts[i := FileTreeNode (node (insts ! i)) (isOpen (insts ! i))
                        (setIsOpenAt (j # p) b (subtree (insts ! i)))]
      else insts)"

section \<open>The selection store and the application (App.tsx)\<close>

text \<open>
  \<open>const [selectedFile, setSelectedFile] = useState<FileNode | null>(null)\<close> is the
  selection store; \<open>fileTree\<close> is the rendered \<open><FileTree nodes={PROJECT_FILES}
  onSelect={setSelectedFile} selectedFile={selectedFile}/>\<close>. \<open>writes\<close> is a history
  variable: the arguments of the calls of \<open>setSelectedFile\<close> so far, oldest first.
\<close>

record App =
  selectedFile :: "FileNode option"
  fileTree :: "FileTreeNode list"
  writes :: "FileNode list"

definition setSelectedFile :: "FileNode \<Rightarrow> App \<Rightarrow> App" where
  "setSelectedFile f app = app\<lparr>selectedFile := Some f, writes := writes app @ [f]\<rparr>"

text \<open>
  \<^verbatim>\<open>
  useEffect(() => {
    const defaultFile = findDefaultFile(PROJECT_FILES[0].children || []);
    if (defaultFile) setSelectedFile(defaultFile);
  }, []);
  \<close>
  The first render followed by the effect, which runs once. With an empty
  \<open>PROJECT_FILES\<close>, \<open>PROJECT_FILES[0]\<close> is \<open>undefined\<close> and reading its \<open>children\<close>
  throws a TypeError. An array, also an empty one, is truthy, so \<open>|| []\<close> replaces a
  missing \<open>children\<close> only.
\<close>

datatype error = TypeError

definition App_mount :: "FileNode list \<Rightarrow> error + App" where
  "App_mount PROJECT_FILES =
     (case PROJECT_FILES of
        [] \<Rightarrow> Inl TypeError
      | root # _ \<Rightarrow>
          (let app = \<lparr>selectedFile = None, fileTree = mountTree PROJECT_FILES, writes = []\<rparr>
           in case findDefaultFile (case children root of None \<Rightarrow> [] | Some cs \<Rightarrow> cs) of
                None \<Rightarrow> Inr app
              | Some defaultFile \<Rightarrow> Inr (setSelectedFile defaultFile app)))"

text \<open>
  A click on the row at a position runs that component's \<open>handleClick\<close>; \<open>onSelect\<close> is
  \<open>setSelectedFile\<close>, handed down unchanged through every \<open>FileTree\<close>. Where no row is
  rendered there is nothing to click.
\<close>

definition click :: "nat list \<Rightarrow> App \<Rightarrow> App" where
  "click p app =
     (case rowAt p (fileTree app) of
        None \<Rightarrow> app
      | Some inst \<Rightarrow>
          (case handleClick (node inst) (isOpen inst) of
             SetIsOpen b \<Rightarrow> app\<lparr>fileTree := setIsOpenAt p b (fileTree app)\<rparr>
           | OnSelect f \<Rightarrow> setSelectedFile f app))"

text \<open>A sequence of clicks, first to last.\<close>

fun clicks :: "nat list list \<Rightarrow> App \<Rightarrow> App" where
  "clicks [] app = app"
| "clicks (p # ps) app = clicks ps (click p app)"

section \<open>Invariants of the rendered tree\<close>

text \<open>
  The components below an open row are those of the node's children, in their order;
  below a closed row, or a row whose node has no children, there are none.
\<close>

fun consistent :: "FileTreeNode list \<Rightarrow> bool" where
  "consistent [] = True"
| "consistent (FileTreeNode nd opn sub # rest) =
     ((if opn
       then (case children nd of
               None \<Rightarrow> sub = []
             | Some cs \<Rightarrow> map node sub = cs \<and> consistent sub)
       else sub = [])
      \<and> consistent rest)"

text \<open>
  What holds of the application whatever was clicked: the rendered tree is that of the
  forest, and the store holds nothing or a node of the forest.
\<close>

definition App_inv :: "FileNode list \<Rightarrow> App \<Rightarrow> bool" where
  "App_inv forest app \<longleftrightarrow>
     consistent (fileTree app) \<and> map node (fileTree app) = forest
     \<and> (case selectedFile app of None \<Rightarrow> True | Some nd \<Rightarrow> nd \<in> set (preorder forest))"

section \<open>Example forests\<close>

text \<open>
  Scenario A of the specification, and the application once it is mounted: every row
  open, \<open>protocol.md\<close> selected by the effect.
\<close>

definition protocol_md :: FileNode where
  "protocol_md = FileNode ''protocol.md'' File (Some ''X'') None None"

definition a_go :: FileNode where
  "a_go = FileNode ''a.go'' File (Some ''Y'') None None"

definition scenario_A_root :: FileNode where
  "scenario_A_root = FileNode ''root'' Directory None (Some [protocol_md, a_go]) None"

definition scenario_A :: "FileNode list" where
  "scenario_A = [scenario_A_root]"

definition scenario_A_app :: App where
  "scenario_A_app =
     \<lparr>selectedFile = Some protocol_md,
      fileTree = [FileTreeNode scenario_A_root True
                    [FileTreeNode protocol_md True [], FileTreeNode a_go True []]],
      writes = [protocol_md]\<rparr>"

text \<open>Scenario C of the specification: a root directory without entries.\<close>

definition scenario_C :: "FileNode list" where
  "scenario_C = [FileNode ''root'' Directory None (Some []) None]"

text \<open>A forest whose only root is itself the file \<open>protocol.md\<close>.\<close>

definition sentinel_at_root :: "FileNode list" where
  "sentinel_at_root = [protocol_md]"

text \<open>
  A forest where \<open>protocol.md\<close> appears twice: first, in traversal order, two levels
  down, then one level down; and the application once it is mounted.
\<close>

definition deep_md :: FileNode where
  "deep_md = FileNode ''protocol.md'' File (Some ''deep'') None (Some Markdown)"

definition shallow_md :: FileNode where
  "shallow_md = FileNode ''protocol.md'' File (Some ''shallow'') None (Some Markdown)"

definition abi :: FileNode where
  "abi = FileNode ''abi'' Directory None (Some [deep_md]) None"

definition root_dir :: FileNode where
  "root_dir = FileNode ''root'' Directory None (Some [abi, shallow_md]) None"

definition two_matches :: "FileNode list" where
  "two_matches = [root_dir]"

definition two_matches_app :: App where
  "two_matches_app =
     \<lparr>selectedFile = Some deep_md,
      fileTree = [FileTreeNode root_dir True
                    [FileTreeNode abi True [FileTreeNode deep_md True []],
                     FileTreeNode shallow_md True []]],
      writes = [deep_md]\<rparr>"

text \<open>A forest with a directory that is named \<open>protocol.md\<close>.\<close>

definition sentinel_directory :: FileNode where
  "sentinel_directory = FileNode ''protocol.md'' Directory None (Some []) None"

definition directory_named_sentinel :: "FileNode list" where
  "directory_named_sentinel =
     [FileNode ''root'' Directory None (Some [sentinel_directory]) None]"

text \<open>Two directories, not in alphabetical order, each with its own \<open>protocol.md\<close>.\<close>

definition zeta :: FileNode where
  "zeta = FileNode ''zeta'' Directory None
            (Some [FileNode ''protocol.md'' File (Some ''Z'') None None]) None"

definition alpha :: FileNode where
  "alpha = FileNode ''alpha'' Directory None
             (Some [FileNode ''protocol.md'' File (Some ''A'') None None]) None"

lemmas scenario_A_defs = protocol_md_def a_go_def scenario_A_root_def

lemmas two_matches_defs = deep_md_def shallow_md_def abi_def root_dir_def

section \<open>The resolver finds the first match of the pre-order sequence\<close>

lemma find_append_first:
  "find P (xs @ ys) = (case find P xs of None \<Rightarrow> find P ys | Some x \<Rightarrow> Some x)"
  by (induction xs) auto

lemma findDefaultFile_find:
  "findDefaultFile forest = find (\<lambda>nd. name nd = ''protocol.md'') (preorder forest)"
  by (induction forest rule: findDefaultFile.induct)
     (auto simp: find_append_first split: option.splits)

lemma preorder_append: "preorder (xs @ ys) = preorder xs @ preorder ys"
  by (induction xs rule: preorder.induct) auto

lemma findDefaultFile_append:
  "findDefaultFile (xs @ ys) =
     (case findDefaultFile xs of None \<Rightarrow> findDefaultFile ys | Some f \<Rightarrow> Some f)"
  by (simp add: findDefaultFile_find preorder_append find_append_first split: option.splits)

lemma findDefaultFile_single:
  "findDefaultFile [nd] =
     (if name nd = ''protocol.md'' then Some nd
      else case children nd of None \<Rightarrow> None | Some cs \<Rightarrow> findDefaultFile cs)"
  by (cases nd) (simp split: option.splits)

lemma findDefaultFile_None_iff:
  "findDefaultFile forest = None \<longleftrightarrow>
     (\<forall>nd \<in> set (preorder forest). name nd \<noteq> ''protocol.md'')"
  by (auto simp: findDefaultFile_find find_None_iff)

lemma findDefaultFile_Some_name:
  "findDefaultFile forest = Some f \<Longrightarrow> f \<in> set (preorder forest) \<and> name f = ''protocol.md''"
  by (auto simp: findDefaultFile_find find_Some_iff)

lemma set_subset_preorder: "set forest \<subseteq> set (preorder forest)"
  by (induction forest rule: preorder.induct) auto

lemma preorder_children_closed:
  "nd \<in> set (preorder forest) \<Longrightarrow> children nd = Some cs \<Longrightarrow>
     set (preorder cs) \<subseteq> set (preorder forest)"
  by (induction forest rule: preorder.induct) (auto split: option.splits)

lemma preorder_two_matches: "preorder two_matches = [root_dir, abi, deep_md, shallow_md]"
  by (simp add: two_matches_def two_matches_defs)

text \<open>
  Claim C1. For every forest, \<open>findDefaultFile\<close> returns the first node of the
  depth-first pre-order sequence (children in their stored order) whose name is
  \<open>protocol.md\<close>, and nothing when there is none. In particular, when the name stands
  at two positions \<open>i < j\<close> of that sequence and at none before \<open>i\<close>, the result is the
  node at position \<open>i\<close>.
\<close>

theorem findDefaultFile_first_in_preorder:
  "findDefaultFile forest = find (\<lambda>nd. name nd = ''protocol.md'') (preorder forest)
   \<and> (\<forall>i j. i < j \<and> j < length (preorder forest)
         \<and> name (preorder forest ! i) = ''protocol.md''
         \<and> name (preorder forest ! j) = ''protocol.md''
         \<and> (\<forall>k < i. name (preorder forest ! k) \<noteq> ''protocol.md'')
       \<longrightarrow> findDefaultFile forest = Some (preorder forest ! i))"
proof (intro conjI allI impI)
  show "findDefaultFile forest = find (\<lambda>nd. name nd = ''protocol.md'') (preorder forest)"
    by (rule findDefaultFile_find)
next
  fix i j
  assume h: "i < j \<and> j < length (preorder forest)
         \<and> name (preorder forest ! i) = ''protocol.md''
         \<and> name (preorder forest ! j) = ''protocol.md''
         \<and> (\<forall>k < i. name (preorder forest ! k) \<noteq> ''protocol.md'')"
  then have "i < length (preorder forest)" by simp
  with h have
    "find (\<lambda>nd. name nd = ''protocol.md'') (preorder forest) = Some (preorder forest ! i)"
    unfolding find_Some_iff by blast
  then show "findDefaultFile forest = Some (preorder forest ! i)"
    by (simp add: findDefaultFile_find)
qed

text \<open>
  In \<open>two_matches\<close> the deeper \<open>protocol.md\<close> comes first in traversal order (position 2,
  before position 3), and it is the one returned.
\<close>

theorem findDefaultFile_first_in_preorder_witness:
  "preorder two_matches ! 2 = deep_md
   \<and> preorder two_matches ! 3 = shallow_md
   \<and> findDefaultFile two_matches = Some deep_md
   \<and> findDefaultFile two_matches \<noteq> Some shallow_md"
proof -
  have pre: "(2::nat) < 3 \<and> 3 < length (preorder two_matches)
         \<and> name (preorder two_matches ! 2) = ''protocol.md''
         \<and> name (preorder two_matches ! 3) = ''protocol.md''
         \<and> (\<forall>k < 2. name (preorder two_matches ! k) \<noteq> ''protocol.md'')"
    by (simp add: preorder_two_matches less_Suc_eq numeral_2_eq_2 numeral_3_eq_3 two_matches_defs)
  from findDefaultFile_first_in_preorder [of two_matches] have
    "\<forall>i j. i < j \<and> j < length (preorder two_matches)
         \<and> name (preorder two_matches ! i) = ''protocol.md''
         \<and> name (preorder two_matches ! j) = ''protocol.md''
         \<and> (\<forall>k < i. name (preorder two_matches ! k) \<noteq> ''protocol.md'')
       \<longrightarrow> findDefaultFile two_matches = Some (preorder two_matches ! i)"
    by (rule conjunct2)
  with pre have "findDefaultFile two_matches = Some (preorder two_matches ! 2)"
    by blast
  then show ?thesis
    by (simp add: preorder_two_matches deep_md_def shallow_md_def)
qed

text \<open>
  Claim C6. For every forest in which no node is named \<open>protocol.md\<close>,
  \<open>findDefaultFile\<close> returns nothing (it has no failing branch), and mounting the
  application over such a forest, when it has a root, does not fail either: it ends in
  the state with no selection, the store never written.
\<close>

theorem findDefaultFile_no_match:
  "(\<forall>nd \<in> set (preorder forest). name nd \<noteq> ''protocol.md'') \<longrightarrow>
     findDefaultFile forest = None
     \<and> (forest \<noteq> [] \<longrightarrow>
          (\<exists>app. App_mount forest = Inr app \<and> selectedFile app = None \<and> writes app = []))"
proof (intro impI conjI)
  assume no: "\<forall>nd \<in> set (preorder forest). name nd \<noteq> ''protocol.md''"
  then show "findDefaultFile forest = None"
    by (simp add: findDefaultFile_None_iff)
  assume "forest \<noteq> []"
  then obtain root rest where f: "forest = root # rest"
    by (cases forest) auto
  obtain n t c ch l where r: "root = FileNode n t c ch l"
    by (cases root)
  have "findDefaultFile (case children root of None \<Rightarrow> [] | Some cs \<Rightarrow> cs) = None"
    using no by (auto simp: findDefaultFile_None_iff f r split: option.splits)
  then show "\<exists>app. App_mount forest = Inr app \<and> selectedFile app = None \<and> writes app = []"
    by (simp add: App_mount_def f)
qed

text \<open>Scenario C: nothing is found, and the mounted application has no selection.\<close>

theorem findDefaultFile_no_match_witness:
  "findDefaultFile scenario_C = None
   \<and> App_mount scenario_C =
       Inr \<lparr>selectedFile = None,
            fileTree = [FileTreeNode (FileNode ''root'' Directory None (Some []) None) True []],
            writes = []\<rparr>"
proof -
  have no: "\<forall>nd \<in> set (preorder scenario_C). name nd \<noteq> ''protocol.md''"
    by (simp add: scenario_C_def)
  have ne: "scenario_C \<noteq> []"
    by (simp add: scenario_C_def)
  from findDefaultFile_no_match [of scenario_C] no ne
  have "findDefaultFile scenario_C = None
     \<and> (\<exists>app. App_mount scenario_C = Inr app \<and> selectedFile app = None \<and> writes app = [])"
    by blast
  then show ?thesis
    by (auto simp: App_mount_def scenario_C_def)
qed

text \<open>
  Claim C9. Two calls of \<open>findDefaultFile\<close> on the same forest return the same result:
  the function reads its argument and a literal only and writes nothing, so its result
  is a function of the forest. The traversal follows the stored order: a match among
  earlier siblings wins over any match among later ones, whatever their names and
  types, and a node is tested before its children.
\<close>

theorem findDefaultFile_deterministic:
  "(r1 = findDefaultFile forest \<and> r2 = findDefaultFile forest \<longrightarrow> r1 = r2)
   \<and> findDefaultFile (xs @ ys) =
       (case findDefaultFile xs of None \<Rightarrow> findDefaultFile ys | Some f \<Rightarrow> Some f)
   \<and> findDefaultFile [nd] =
       (if name nd = ''protocol.md'' then Some nd
        else case children nd of None \<Rightarrow> None | Some cs \<Rightarrow> findDefaultFile cs)"
  by (simp add: findDefaultFile_append findDefaultFile_single)

text \<open>
  With \<open>zeta\<close> stored before \<open>alpha\<close> the match below \<open>zeta\<close> is returned, and the other
  way round with \<open>alpha\<close> stored first.
\<close>

theorem findDefaultFile_deterministic_witness:
  "findDefaultFile [zeta, alpha] = Some (FileNode ''protocol.md'' File (Some ''Z'') None None)
   \<and> findDefaultFile [alpha, zeta] = Some (FileNode ''protocol.md'' File (Some ''A'') None None)
   \<and> findDefaultFile [zeta] = Some (FileNode ''protocol.md'' File (Some ''Z'') None None)"
proof -
  have r: "findDefaultFile [zeta, alpha] = findDefaultFile [zeta, alpha]
           \<and> findDefaultFile [zeta, alpha] = findDefaultFile [zeta, alpha]"
    by simp
  from findDefaultFile_deterministic
    [of "findDefaultFile [zeta, alpha]" "[zeta, alpha]" "findDefaultFile [zeta, alpha]"
        "[zeta]" "[alpha]" zeta]
    findDefaultFile_deterministic
    [of "findDefaultFile [alpha, zeta]" "[alpha, zeta]" "findDefaultFile [alpha, zeta]"
        "[alpha]" "[zeta]" alpha] r
  show ?thesis
    by (simp add: zeta_def alpha_def)
qed

section \<open>The highlight\<close>

lemma isSelected_iff:
  "isSelected sel nd \<longleftrightarrow> (\<exists>s. sel = Some s \<and> name s = name nd \<and> content s = content nd)"
  by (cases sel) (auto simp: isSelected_def)

text \<open>
  Claim C2. The row of a file node carries the highlight exactly when there is a
  selected node and its name and its content both equal the row node's; the row is the
  first one the node's component renders. Nodes are compared by these two fields, so a
  selected node that differs elsewhere (type, children, language) still matches, and a
  node of the same name with another content, or none, does not.
\<close>

theorem isSelected_name_and_content:
  "type nd = File \<Longrightarrow>
     highlighted (FileTreeNode_row sel level nd opn) =
       (\<exists>s. sel = Some s \<and> (name s, content s) = (name nd, content nd))
     \<and> FileTree sel level (FileTreeNode nd opn sub # rest) ! 0 = FileTreeNode_row sel level nd opn"
  by (simp add: FileTreeNode_row_def isSelected_iff)

text \<open>
  The row of \<open>a.go\<close> (content \<open>Y\<close>) under five selections: another value with the same
  name and content; the same name with content \<open>Z\<close>; the same name without content;
  \<open>protocol.md\<close>; no selection.
\<close>

theorem isSelected_name_and_content_witness:
  "type a_go = File
   \<and> highlighted (FileTreeNode_row
        (Some (FileNode ''a.go'' Directory (Some ''Y'') (Some []) (Some Go))) 1 a_go True)
   \<and> \<not> highlighted (FileTreeNode_row
        (Some (FileNode ''a.go'' File (Some ''Z'') None None)) 1 a_go True)
   \<and> \<not> highlighted (FileTreeNode_row (Some (FileNode ''a.go'' File None None None)) 1 a_go True)
   \<and> \<not> highlighted (FileTreeNode_row (Some protocol_md) 1 a_go True)
   \<and> \<not> highlighted (FileTreeNode_row None 1 a_go True)"
proof -
  have f: "type a_go = File" by (simp add: a_go_def)
  show ?thesis
    using
      isSelected_name_and_content [OF f,
        of "Some (FileNode ''a.go'' Directory (Some ''Y'') (Some []) (Some Go))" 1 True "[]" "[]"]
      isSelected_name_and_content [OF f,
        of "Some (FileNode ''a.go'' File (Some ''Z'') None None)" 1 True "[]" "[]"]
      isSelected_name_and_content [OF f,
        of "Some (FileNode ''a.go'' File None None None)" 1 True "[]" "[]"]
      isSelected_name_and_content [OF f, of "Some protocol_md" 1 True "[]" "[]"]
      isSelected_name_and_content [OF f, of "None" 1 True "[]" "[]"]
    by (simp add: a_go_def protocol_md_def)
qed

text \<open>
  Claim C10. The highlight is computed for every row, also a directory's: a directory
  row whose node has the selected node's name and content (both may be absent) carries
  the highlight, next to its expand indicator.
\<close>

theorem directory_row_highlighted:
  "type nd = Directory \<Longrightarrow> name s = name nd \<Longrightarrow> content s = content nd \<Longrightarrow>
     highlighted (FileTreeNode_row (Some s) level nd opn)
     \<and> chevron (FileTreeNode_row (Some s) level nd opn) = Some opn
     \<and> FileTree (Some s) level (FileTreeNode nd opn sub # rest) ! 0
         = FileTreeNode_row (Some s) level nd opn"
  by (simp add: FileTreeNode_row_def isSelected_iff)

text \<open>
  Mounting \<open>directory_named_sentinel\<close> selects the directory named \<open>protocol.md\<close>, and
  the second row of the tree, that directory's, is highlighted.
\<close>

theorem directory_row_highlighted_witness:
  "App_mount directory_named_sentinel =
     Inr \<lparr>selectedFile = Some sentinel_directory,
          fileTree = mountTree directory_named_sentinel,
          writes = [sentinel_directory]\<rparr>
   \<and> type sentinel_directory = Directory
   \<and> content sentinel_directory = None
   \<and> FileTree (Some sentinel_directory) 0 (mountTree directory_named_sentinel) =
       [\<lparr>label = ''root'', highlighted = False, paddingLeft = 8, chevron = Some True\<rparr>,
        \<lparr>label = ''protocol.md'', highlighted = True, paddingLeft = 20, chevron = Some True\<rparr>]
   \<and> highlighted (FileTreeNode_row (Some sentinel_directory) 1 sentinel_directory True)"
proof -
  have d: "type sentinel_directory = Directory" by (simp add: sentinel_directory_def)
  from directory_row_highlighted [OF d refl refl, of 1 True "[]" "[]"]
  have "highlighted (FileTreeNode_row (Some sentinel_directory) 1 sentinel_directory True)"
    by simp
  then show ?thesis
    by (simp add: App_mount_def directory_named_sentinel_def sentinel_directory_def
        setSelectedFile_def FileTreeNode_row_def isSelected_def)
qed

section \<open>The rendered tree\<close>

lemma map_node_mountTree: "map node (mountTree forest) = forest"
  by (induction forest rule: mountTree.induct) auto

lemma length_mountTree: "length (mountTree forest) = length forest"
  by (induction forest rule: mountTree.induct) auto

lemma consistent_mountTree: "consistent (mountTree forest)"
  by (induction forest rule: mountTree.induct)
     (auto simp: map_node_mountTree split: option.splits)

lemma mountTree_nth:
  "i < length forest \<Longrightarrow>
     mountTree forest ! i =
       FileTreeNode (forest ! i) True
         (case children (forest ! i) of None \<Rightarrow> [] | Some cs \<Rightarrow> mountTree cs)"
proof (induction forest arbitrary: i rule: mountTree.induct)
  case 1
  then show ?case by simp
next
  case (2 n t c ch l rest)
  then show ?case by (cases i) auto
qed

lemma rowAt_mountTree_open: "rowAt q (mountTree forest) = Some x \<Longrightarrow> isOpen x"
proof (induction q "mountTree forest" arbitrary: forest rule: rowAt.induct)
  case 1
  then show ?case by simp
next
  case (2 i)
  then show ?case
    by (auto simp: length_mountTree mountTree_nth split: if_splits)
next
  case (3 i j p)
  from 3(2) have i: "i < length forest"
    and r: "rowAt (j # p) (subtree (mountTree forest ! i)) = Some x"
    and ch: "children (node (mountTree forest ! i)) \<noteq> None"
    by (auto simp: length_mountTree split: if_splits)
  from ch i obtain cs where cs: "children (forest ! i) = Some cs"
    by (auto simp: mountTree_nth)
  with i have "subtree (mountTree forest ! i) = mountTree cs"
    by (simp add: mountTree_nth)
  with 3(1) [of cs] r i cs show ?case
    by (simp add: length_mountTree mountTree_nth)
qed

lemma FileTree_mountTree:
  "FileTree sel level (mountTree forest) =
     map (\<lambda>(nd, d). FileTreeNode_row sel d nd True) (preorder_depth level forest)"
  by (induction level forest rule: preorder_depth.induct) (auto split: option.splits)

lemma rowAt_append:
  "rowAt p insts = Some inst \<Longrightarrow> q \<noteq> [] \<Longrightarrow>
     rowAt (p @ q) insts =
       (if isOpen inst \<and> children (node inst) \<noteq> None then rowAt q (subtree inst) else None)"
proof (induction p insts rule: rowAt.induct)
  case (1 insts)
  then show ?case by simp
next
  case (2 i insts)
  then show ?case by (cases q) (auto split: if_splits)
next
  case (3 i j p insts)
  then show ?case by (auto split: if_splits)
qed

lemma strict_prefix_append: "strict_prefix p q \<Longrightarrow> \<exists>r. r \<noteq> [] \<and> q = p @ r"
  by (auto simp: strict_prefix_def prefix_def)

lemma rowAt_below_closed:
  "rowAt p insts = Some inst \<Longrightarrow> \<not> isOpen inst \<Longrightarrow> strict_prefix p q \<Longrightarrow>
     rowAt q insts = None"
  by (auto dest!: strict_prefix_append simp: rowAt_append)

section \<open>Setting a flag in the rendered tree\<close>

lemma length_setIsOpenAt: "length (setIsOpenAt p b insts) = length insts"
  by (induction p b insts rule: setIsOpenAt.induct) auto

lemma node_setIsOpen: "node (setIsOpen b inst) = node inst"
  by (cases inst) simp

lemma isOpen_setIsOpen: "isOpen (setIsOpen b inst) = b"
  by (cases inst) auto

lemma map_update_same: "i < length xs \<Longrightarrow> (map f xs)[i := f (xs ! i)] = map f xs"
  by (simp add: list_eq_iff_nth_eq nth_list_update)

lemma map_node_setIsOpenAt: "map node (setIsOpenAt p b insts) = map node insts"
  by (induction p b insts rule: setIsOpenAt.induct)
     (auto simp: map_update node_setIsOpen map_update_same)

lemma rowAt_setIsOpenAt_same:
  "rowAt p insts = Some inst \<Longrightarrow> rowAt p (setIsOpenAt p b insts) = Some (setIsOpen b inst)"
proof (induction p b insts rule: setIsOpenAt.induct)
  case (1 b insts)
  then show ?case by simp
next
  case (2 i b insts)
  then show ?case by (auto split: if_splits)
next
  case (3 i j p b insts)
  then show ?case by (auto split: if_splits)
qed

lemma flagAt_setIsOpenAt_other:
  "\<not> prefix p q \<Longrightarrow> flagAt q (setIsOpenAt p b insts) = flagAt q insts"
proof (induction p b insts arbitrary: q rule: setIsOpenAt.induct)
  case (1 b insts)
  then show ?case by simp
next
  case (2 i b insts)
  show ?case
  proof (cases q)
    case Nil
    then show ?thesis by (simp add: flagAt_def)
  next
    case (Cons k q')
    with 2 have "k \<noteq> i" by auto
    then show ?thesis
      unfolding flagAt_def Cons by (cases q') auto
  qed
next
  case (3 i j p b insts)
  show ?case
  proof (cases q)
    case Nil
    then show ?thesis by (simp add: flagAt_def)
  next
    case (Cons k q')
    show ?thesis
    proof (cases "k = i")
      case False
      then show ?thesis
        unfolding flagAt_def Cons by (cases q') auto
    next
      case True
      show ?thesis
      proof (cases q')
        case Nil
        then show ?thesis
          unfolding flagAt_def Cons True by auto
      next
        case (Cons k' q'')
        with 3(2) \<open>q = k # q'\<close> True have np: "\<not> prefix (j # p) q'" by simp
        show ?thesis
        proof (cases "i < length insts \<and> isOpen (insts ! i)
                       \<and> children (node (insts ! i)) \<noteq> None")
          case g: True
          from 3(1) [OF g np]
          have "flagAt q' (setIsOpenAt (j # p) b (subtree (insts ! i))) =
                flagAt q' (subtree (insts ! i))" .
          with g show ?thesis
            unfolding flagAt_def \<open>q = k # q'\<close> True Cons by simp
        next
          case False
          then show ?thesis by auto
        qed
      qed
    qed
  qed
qed

lemma rowAt_below_collapse:
  "rowAt p insts = Some inst \<Longrightarrow> strict_prefix p q \<Longrightarrow>
     rowAt q (setIsOpenAt p False insts) = None"
  using rowAt_below_closed [OF rowAt_setIsOpenAt_same, of p insts inst False q]
  by (simp add: isOpen_setIsOpen)

lemma rowAt_below_expand:
  assumes "rowAt p insts = Some inst" "\<not> isOpen inst" "strict_prefix p q"
    and "rowAt q (setIsOpenAt p True insts) = Some x"
  shows "isOpen x"
proof -
  from assms(3) obtain r where r: "r \<noteq> []" "q = p @ r"
    by (auto dest: strict_prefix_append)
  have "rowAt p (setIsOpenAt p True insts) = Some (setIsOpen True inst)"
    using assms(1) by (rule rowAt_setIsOpenAt_same)
  from rowAt_append [OF this r(1)] assms(4) r(2)
  have "rowAt r (subtree (setIsOpen True inst)) = Some x"
    by (auto split: if_splits)
  moreover obtain nd opn sub where "inst = FileTreeNode nd opn sub" by (cases inst)
  ultimately have "rowAt r (case children nd of None \<Rightarrow> [] | Some cs \<Rightarrow> mountTree cs) = Some x"
    using assms(2) by simp
  then show ?thesis
    by (cases "children nd") (auto dest: rowAt_mountTree_open elim: rowAt.elims)
qed

section \<open>The rendered tree stays that of the forest\<close>

lemma consistent_single_setIsOpen: "consistent [inst] \<Longrightarrow> consistent [setIsOpen b inst]"
  by (cases inst) (auto simp: consistent_mountTree map_node_mountTree split: option.splits)

lemma consistent_update:
  "consistent insts \<Longrightarrow> consistent [x] \<Longrightarrow> consistent (insts[i := x])"
proof (induction insts arbitrary: i)
  case Nil
  then show ?case by simp
next
  case (Cons a insts)
  then show ?case
    by (cases a; cases x; cases i) (auto split: option.splits if_splits)
qed

lemma consistent_nth:
  "consistent insts \<Longrightarrow> i < length insts \<Longrightarrow> consistent [insts ! i]"
proof (induction insts arbitrary: i)
  case Nil
  then show ?case by simp
next
  case (Cons a insts)
  then show ?case
    by (cases a; cases i) (auto split: option.splits if_splits)
qed

lemma consistent_open_subtree:
  "consistent [inst] \<Longrightarrow> isOpen inst \<Longrightarrow> children (node inst) = Some cs \<Longrightarrow>
     map node (subtree inst) = cs \<and> consistent (subtree inst)"
  by (cases inst) auto

lemma consistent_setIsOpenAt:
  "consistent insts \<Longrightarrow> consistent (setIsOpenAt p b insts)"
proof (induction p b insts rule: setIsOpenAt.induct)
  case (1 b insts)
  then show ?case by simp
next
  case (2 i b insts)
  then show ?case
    by (auto intro!: consistent_update consistent_single_setIsOpen consistent_nth)
next
  case (3 i j p b insts)
  show ?case
  proof (cases "i < length insts \<and> isOpen (insts ! i) \<and> children (node (insts ! i)) \<noteq> None")
    case True
    then obtain cs where cs: "children (node (insts ! i)) = Some cs" by auto
    from True 3(2) have "consistent [insts ! i]" by (simp add: consistent_nth)
    with True cs have s: "map node (subtree (insts ! i)) = cs" "consistent (subtree (insts ! i))"
      by (simp_all add: consistent_open_subtree)
    with 3(1) True have "consistent (setIsOpenAt (j # p) b (subtree (insts ! i)))" by simp
    with True cs s(1)
    have "consistent [FileTreeNode (node (insts ! i)) (isOpen (insts ! i))
                        (setIsOpenAt (j # p) b (subtree (insts ! i)))]"
      by (simp add: map_node_setIsOpenAt)
    with 3(2) True show ?thesis
      by (simp add: consistent_update)
  next
    case False
    with 3(2) show ?thesis by auto
  qed
qed

lemma consistent_rowAt:
  "consistent insts \<Longrightarrow> rowAt p insts = Some inst \<Longrightarrow> consistent [inst]"
proof (induction p insts rule: rowAt.induct)
  case (1 insts)
  then show ?case by simp
next
  case (2 i insts)
  then show ?case by (auto simp: consistent_nth split: if_splits)
next
  case (3 i j p insts)
  from 3(3) have c: "i < length insts" "isOpen (insts ! i)" "children (node (insts ! i)) \<noteq> None"
    and r: "rowAt (j # p) (subtree (insts ! i)) = Some inst"
    by (auto split: if_splits)
  from c 3(2) have "consistent [insts ! i]" by (simp add: consistent_nth)
  with c have "consistent (subtree (insts ! i))"
    by (auto simp: consistent_open_subtree)
  with 3(1) c r show ?case by simp
qed

lemma rowAt_node_in_preorder:
  "consistent insts \<Longrightarrow> rowAt p insts = Some inst \<Longrightarrow>
     node inst \<in> set (preorder (map node insts))"
proof (induction p insts rule: rowAt.induct)
  case (1 insts)
  then show ?case by simp
next
  case (2 i insts)
  then have "node inst \<in> set (map node insts)"
    by (auto split: if_splits)
  then show ?case using set_subset_preorder by blast
next
  case (3 i j p insts)
  from 3(3) have c: "i < length insts" "isOpen (insts ! i)" "children (node (insts ! i)) \<noteq> None"
    and r: "rowAt (j # p) (subtree (insts ! i)) = Some inst"
    by (auto split: if_splits)
  then obtain cs where cs: "children (node (insts ! i)) = Some cs" by auto
  from c 3(2) have "consistent [insts ! i]" by (simp add: consistent_nth)
  with c cs have s: "map node (subtree (insts ! i)) = cs" "consistent (subtree (insts ! i))"
    by (simp_all add: consistent_open_subtree)
  with 3(1) c r have "node inst \<in> set (preorder cs)" by auto
  moreover have "node (insts ! i) \<in> set (preorder (map node insts))"
    using c(1) set_subset_preorder [of "map node insts"]
    by (metis nth_map nth_mem length_map subsetD)
  ultimately show ?case
    using preorder_children_closed [OF _ cs] by blast
qed

section \<open>Clicks\<close>

lemma click_directory:
  assumes "rowAt p (fileTree app) = Some inst" "type (node inst) = Directory"
  shows "click p app = app\<lparr>fileTree := setIsOpenAt p (\<not> isOpen inst) (fileTree app)\<rparr>"
  using assms by (simp add: click_def handleClick_def)

lemma click_file:
  assumes "rowAt p (fileTree app) = Some inst" "type (node inst) = File"
  shows "click p app = setSelectedFile (node inst) app"
  using assms by (simp add: click_def handleClick_def)

lemma click_nothing: "rowAt p (fileTree app) = None \<Longrightarrow> click p app = app"
  by (simp add: click_def)

lemma App_mount_Inr:
  "App_mount (root # rest) =
     Inr \<lparr>selectedFile = findDefaultFile (case children root of None \<Rightarrow> [] | Some cs \<Rightarrow> cs),
          fileTree = mountTree (root # rest),
          writes = (case findDefaultFile (case children root of None \<Rightarrow> [] | Some cs \<Rightarrow> cs) of
                      None \<Rightarrow> [] | Some f \<Rightarrow> [f])\<rparr>"
  by (simp add: App_mount_def setSelectedFile_def split: option.splits)

lemma App_mount_inv: "App_mount forest = Inr app \<Longrightarrow> App_inv forest app"
proof (cases forest)
  case Nil
  assume "App_mount forest = Inr app"
  with Nil show ?thesis by (simp add: App_mount_def)
next
  case (Cons root rest)
  assume "App_mount forest = Inr app"
  with Cons have app:
    "app = \<lparr>selectedFile = findDefaultFile (case children root of None \<Rightarrow> [] | Some cs \<Rightarrow> cs),
          fileTree = mountTree (root # rest),
          writes = (case findDefaultFile (case children root of None \<Rightarrow> [] | Some cs \<Rightarrow> cs) of
                      None \<Rightarrow> [] | Some f \<Rightarrow> [f])\<rparr>"
    by (simp add: App_mount_Inr)
  have root: "root \<in> set (preorder forest)"
    using set_subset_preorder [of forest] Cons by auto
  have "nd \<in> set (preorder forest)"
    if "findDefaultFile (case children root of None \<Rightarrow> [] | Some cs \<Rightarrow> cs) = Some nd" for nd
  proof (cases "children root")
    case None
    with that show ?thesis by simp
  next
    case (Some cs)
    with that have "nd \<in> set (preorder cs)"
      by (auto dest: findDefaultFile_Some_name)
    with preorder_children_closed [OF root Some] show ?thesis by blast
  qed
  then show ?thesis
    unfolding App_inv_def app Cons
    by (simp add: consistent_mountTree map_node_mountTree del: mountTree.simps
        split: option.splits)
qed

lemma click_inv: "App_inv forest app \<Longrightarrow> App_inv forest (click p app)"
proof (cases "rowAt p (fileTree app)")
  case None
  assume "App_inv forest app"
  with None show ?thesis by (simp add: click_nothing)
next
  case (Some inst)
  assume inv: "App_inv forest app"
  show ?thesis
  proof (cases "type (node inst)")
    case Directory
    with inv show ?thesis
      by (simp add: click_directory [OF Some Directory] App_inv_def consistent_setIsOpenAt
          map_node_setIsOpenAt)
  next
    case File
    from inv have "node inst \<in> set (preorder forest)"
      using rowAt_node_in_preorder [OF _ Some] by (auto simp: App_inv_def)
    with inv show ?thesis
      by (simp add: click_file [OF Some File] App_inv_def setSelectedFile_def)
  qed
qed

lemma clicks_inv: "App_inv forest app \<Longrightarrow> App_inv forest (clicks ps app)"
  by (induction ps arbitrary: app) (auto intro: click_inv)

lemma click_keeps_selection: "selectedFile app \<noteq> None \<Longrightarrow> selectedFile (click p app) \<noteq> None"
  by (auto simp: click_def setSelectedFile_def split: option.splits Effect.splits)

lemma clicks_keeps_selection:
  "selectedFile app \<noteq> None \<Longrightarrow> selectedFile (clicks ps app) \<noteq> None"
proof (induction ps arbitrary: app)
  case Nil
  then show ?case by simp
next
  case (Cons p ps)
  from Cons.IH [OF click_keeps_selection [OF Cons.prems]] show ?case by simp
qed

section \<open>The examples, evaluated\<close>

lemma mount_scenario_A: "App_mount scenario_A = Inr scenario_A_app"
  by (simp add: App_mount_def scenario_A_def scenario_A_app_def scenario_A_defs setSelectedFile_def)

lemma rowAt_protocol_md:
  "rowAt [0, 0] (fileTree scenario_A_app) = Some (FileTreeNode protocol_md True [])"
  by (simp add: scenario_A_app_def scenario_A_root_def)

lemma rowAt_a_go:
  "rowAt [0, 1] (fileTree scenario_A_app) = Some (FileTreeNode a_go True [])"
  by (simp add: scenario_A_app_def scenario_A_root_def)

lemma click_a_go:
  "click [0, 1] scenario_A_app =
     scenario_A_app\<lparr>selectedFile := Some a_go, writes := [protocol_md, a_go]\<rparr>"
  by (simp add: click_def scenario_A_app_def scenario_A_defs handleClick_def setSelectedFile_def)

lemma mount_two_matches: "App_mount two_matches = Inr two_matches_app"
  by (simp add: App_mount_def two_matches_def two_matches_app_def two_matches_defs setSelectedFile_def)

lemma rowAt_abi:
  "rowAt [0, 0] (fileTree two_matches_app) =
     Some (FileTreeNode abi True [FileTreeNode deep_md True []])"
  by (simp add: two_matches_app_def two_matches_defs)

lemma rowAt_shallow_md:
  "rowAt [0, 1] (fileTree two_matches_app) = Some (FileTreeNode shallow_md True [])"
  by (simp add: two_matches_app_def two_matches_defs)

lemma click_abi:
  "click [0, 0] two_matches_app =
     two_matches_app\<lparr>fileTree :=
       [FileTreeNode root_dir True [FileTreeNode abi False [], FileTreeNode shallow_md True []]]\<rparr>"
  by (simp add: click_def two_matches_app_def two_matches_defs handleClick_def)

lemma click_abi_twice: "click [0, 0] (click [0, 0] two_matches_app) = two_matches_app"
  unfolding click_abi
  by (simp add: click_def two_matches_app_def two_matches_defs handleClick_def)

section \<open>What a click changes\<close>

text \<open>
  Claim C5. A click on a directory row leaves the store and its history as they were
  and negates that row's own flag; the flag of every row that is not below it keeps
  its value; the rows below it have no component after a collapse, and had none
  before an expansion, which mounts them afresh, none closed. A click on a file row
  leaves the whole rendered tree, every flag in it, as it was, and calls the selection
  callback with the row's node: the store holds it, the history ends with it.
\<close>

theorem click_frame:
  "rowAt p (fileTree app) = Some inst \<Longrightarrow>
     (type (node inst) = Directory \<longrightarrow>
        selectedFile (click p app) = selectedFile app
        \<and> writes (click p app) = writes app
        \<and> flagAt p (fileTree (click p app)) = Some (\<not> isOpen inst)
        \<and> (\<forall>q. \<not> prefix p q \<longrightarrow>
              flagAt q (fileTree (click p app)) = flagAt q (fileTree app))
        \<and> (\<forall>q. strict_prefix p q \<longrightarrow>
              (if isOpen inst then flagAt q (fileTree (click p app)) = None
               else flagAt q (fileTree app) = None
                    \<and> flagAt q (fileTree (click p app)) \<noteq> Some False)))
     \<and> (type (node inst) = File \<longrightarrow>
        fileTree (click p app) = fileTree app
        \<and> selectedFile (click p app) = Some (node inst)
        \<and> writes (click p app) = writes app @ [node inst])"
proof (intro conjI impI allI)
  assume r: "rowAt p (fileTree app) = Some inst"
  {
    assume d: "type (node inst) = Directory"
    note c = click_directory [OF r d]
    show "selectedFile (click p app) = selectedFile app" by (simp add: c)
    show "writes (click p app) = writes app" by (simp add: c)
    show "flagAt p (fileTree (click p app)) = Some (\<not> isOpen inst)"
      by (simp add: c flagAt_def rowAt_setIsOpenAt_same [OF r] isOpen_setIsOpen)
    fix q
    {
      assume "\<not> prefix p q"
      then show "flagAt q (fileTree (click p app)) = flagAt q (fileTree app)"
        by (simp add: c flagAt_setIsOpenAt_other)
    }
    assume sp: "strict_prefix p q"
    show "if isOpen inst then flagAt q (fileTree (click p app)) = None
               else flagAt q (fileTree app) = None
                    \<and> flagAt q (fileTree (click p app)) \<noteq> Some False"
    proof (cases "isOpen inst")
      case True
      then show ?thesis
        by (simp add: c flagAt_def rowAt_below_collapse [OF r sp])
    next
      case False
      have "flagAt q (fileTree app) = None"
        by (simp add: flagAt_def rowAt_below_closed [OF r False sp])
      moreover have "flagAt q (fileTree (click p app)) \<noteq> Some False"
        using rowAt_below_expand [OF r False sp] False
        by (auto simp: c flagAt_def)
      ultimately show ?thesis using False by simp
    qed
  }
  assume f: "type (node inst) = File"
  note c = click_file [OF r f]
  show "fileTree (click p app) = fileTree app" by (simp add: c setSelectedFile_def)
  show "selectedFile (click p app) = Some (node inst)" by (simp add: c setSelectedFile_def)
  show "writes (click p app) = writes app @ [node inst]" by (simp add: c setSelectedFile_def)
qed

text \<open>
  In the mounted \<open>two_matches\<close>: a click on the directory \<open>abi\<close> (position 0, 0) and a
  click on the file at position 0, 1.
\<close>

theorem click_frame_witness:
  "rowAt [0, 0] (fileTree two_matches_app) =
     Some (FileTreeNode abi True [FileTreeNode deep_md True []])
   \<and> type abi = Directory
   \<and> selectedFile (click [0, 0] two_matches_app) = Some deep_md
   \<and> writes (click [0, 0] two_matches_app) = [deep_md]
   \<and> flagAt [0, 0] (fileTree two_matches_app) = Some True
   \<and> flagAt [0, 0] (fileTree (click [0, 0] two_matches_app)) = Some False
   \<and> flagAt [0] (fileTree (click [0, 0] two_matches_app)) = Some True
   \<and> flagAt [0, 1] (fileTree (click [0, 0] two_matches_app)) = Some True
   \<and> flagAt [0, 0, 0] (fileTree two_matches_app) = Some True
   \<and> flagAt [0, 0, 0] (fileTree (click [0, 0] two_matches_app)) = None
   \<and> rowAt [0, 1] (fileTree two_matches_app) = Some (FileTreeNode shallow_md True [])
   \<and> type shallow_md = File
   \<and> fileTree (click [0, 1] two_matches_app) = fileTree two_matches_app
   \<and> selectedFile (click [0, 1] two_matches_app) = Some shallow_md
   \<and> writes (click [0, 1] two_matches_app) = [deep_md, shallow_md]"
proof -
  have d: "type (node (FileTreeNode abi True [FileTreeNode deep_md True []])) = Directory"
    by (simp add: abi_def)
  have f: "type (node (FileTreeNode shallow_md True [])) = File"
    by (simp add: shallow_md_def)
  have np: "\<not> prefix [0, 0] [0::nat]" "\<not> prefix [0, 0] [0, 1::nat]"
    and sp: "strict_prefix [0, 0] [0, 0, 0::nat]"
    by simp_all
  note on_dir = click_frame [OF rowAt_abi, THEN conjunct1, rule_format, OF d]
  note on_file = click_frame [OF rowAt_shallow_md, THEN conjunct2, rule_format, OF f]
  from on_dir
  have 1: "selectedFile (click [0, 0] two_matches_app) = selectedFile two_matches_app"
    and 2: "writes (click [0, 0] two_matches_app) = writes two_matches_app"
    and 3: "flagAt [0, 0] (fileTree (click [0, 0] two_matches_app)) = Some False"
    and 4: "\<forall>q. \<not> prefix [0, 0] q \<longrightarrow>
              flagAt q (fileTree (click [0, 0] two_matches_app)) =
              flagAt q (fileTree two_matches_app)"
    and 5: "\<forall>q. strict_prefix [0, 0] q \<longrightarrow>
              flagAt q (fileTree (click [0, 0] two_matches_app)) = None"
    by simp_all
  from 4 np
  have 6: "flagAt [0] (fileTree (click [0, 0] two_matches_app)) =
           flagAt [0] (fileTree two_matches_app)"
    "flagAt [0, 1] (fileTree (click [0, 0] two_matches_app)) =
     flagAt [0, 1] (fileTree two_matches_app)"
    by blast+
  from 5 sp have 7: "flagAt [0, 0, 0] (fileTree (click [0, 0] two_matches_app)) = None"
    by blast
  have 8: "flagAt [0] (fileTree two_matches_app) = Some True"
     "flagAt [0, 1] (fileTree two_matches_app) = Some True"
     "flagAt [0, 0] (fileTree two_matches_app) = Some True"
     "flagAt [0, 0, 0] (fileTree two_matches_app) = Some True"
    by (simp_all add: flagAt_def two_matches_app_def two_matches_defs)
  have 9: "selectedFile two_matches_app = Some deep_md" "writes two_matches_app = [deep_md]"
    by (simp_all add: two_matches_app_def)
  from on_file 1 2 3 6 7 8 9 rowAt_abi rowAt_shallow_md show ?thesis
    by (simp add: abi_def shallow_md_def)
qed

text \<open>
  Claim C7. A click on a file row whose node is the one the store holds leaves the
  store's value as it is; a second click on the same file row gives the store value of
  the first, and two calls of the selection callback with one node that of one call.
\<close>

theorem reselect_idempotent:
  "rowAt p (fileTree app) = Some inst \<Longrightarrow> type (node inst) = File \<Longrightarrow>
     (selectedFile app = Some (node inst) \<longrightarrow> selectedFile (click p app) = selectedFile app)
     \<and> selectedFile (click p (click p app)) = selectedFile (click p app)
     \<and> fileTree (click p (click p app)) = fileTree app
     \<and> selectedFile (setSelectedFile (node inst) (setSelectedFile (node inst) app))
         = selectedFile (setSelectedFile (node inst) app)"
proof -
  assume r: "rowAt p (fileTree app) = Some inst" and f: "type (node inst) = File"
  have c: "click p app = setSelectedFile (node inst) app"
    by (rule click_file [OF r f])
  have "rowAt p (fileTree (click p app)) = Some inst"
    by (simp add: c setSelectedFile_def r)
  then have c': "click p (click p app) = setSelectedFile (node inst) (click p app)"
    by (rule click_file [OF _ f])
  show ?thesis
    unfolding c' unfolding c by (simp add: setSelectedFile_def)
qed

text \<open>
  In the mounted Scenario A \<open>protocol.md\<close> is selected; clicking its row once or twice
  leaves it selected.
\<close>

theorem reselect_idempotent_witness:
  "rowAt [0, 0] (fileTree scenario_A_app) = Some (FileTreeNode protocol_md True [])
   \<and> type protocol_md = File
   \<and> selectedFile scenario_A_app = Some protocol_md
   \<and> selectedFile (click [0, 0] scenario_A_app) = Some protocol_md
   \<and> selectedFile (click [0, 0] (click [0, 0] scenario_A_app)) = Some protocol_md
   \<and> fileTree (click [0, 0] (click [0, 0] scenario_A_app)) = fileTree scenario_A_app"
proof -
  have f: "type (node (FileTreeNode protocol_md True [])) = File"
    by (simp add: protocol_md_def)
  have s: "selectedFile scenario_A_app = Some (node (FileTreeNode protocol_md True []))"
    by (simp add: scenario_A_app_def)
  from reselect_idempotent [OF rowAt_protocol_md f] s
  have "selectedFile (click [0, 0] scenario_A_app) = selectedFile scenario_A_app"
    and "selectedFile (click [0, 0] (click [0, 0] scenario_A_app)) =
         selectedFile (click [0, 0] scenario_A_app)"
    and "fileTree (click [0, 0] (click [0, 0] scenario_A_app)) = fileTree scenario_A_app"
    by simp_all
  with s rowAt_protocol_md show ?thesis
    by (simp add: protocol_md_def)
qed

section \<open>The selection store\<close>

text \<open>
  Claim C4. From the mounted application, after any sequence of clicks the store holds
  nothing or one node, a node of the forest. From any such state, a click on the row of
  a file A followed by a click on the row of a file B leaves B in the store, and so not
  A when the two nodes differ; the row of B is then highlighted and that of A is not,
  unless A has the name and the content of B. Nothing empties the store: once it holds a node it
  holds one after every further sequence of clicks. (A stored node is read through its
  fields only, never compared by reference, so nodes are values here.)
\<close>

theorem selection_exclusive:
  "App_mount forest = Inr app0 \<Longrightarrow> app = clicks ps app0 \<Longrightarrow>
     (selectedFile app = None \<or> (\<exists>nd \<in> set (preorder forest). selectedFile app = Some nd))
     \<and> (\<forall>pA pB a b.
           rowAt pA (fileTree app) = Some a \<and> type (node a) = File
           \<and> rowAt pB (fileTree app) = Some b \<and> type (node b) = File
         \<longrightarrow> selectedFile (click pA app) = Some (node a)
             \<and> selectedFile (click pB (click pA app)) = Some (node b)
             \<and> (node a \<noteq> node b \<longrightarrow> selectedFile (click pB (click pA app)) \<noteq> Some (node a))
             \<and> isSelected (selectedFile (click pB (click pA app))) (node b)
             \<and> ((name (node a), content (node a)) \<noteq> (name (node b), content (node b)) \<longrightarrow>
                  \<not> isSelected (selectedFile (click pB (click pA app))) (node a)))
     \<and> (\<forall>qs. selectedFile app \<noteq> None \<longrightarrow> selectedFile (clicks qs app) \<noteq> None)"
proof (intro conjI allI impI)
  assume m: "App_mount forest = Inr app0" and a: "app = clicks ps app0"
  then have "App_inv forest app"
    by (simp add: App_mount_inv clicks_inv)
  then show "selectedFile app = None \<or> (\<exists>nd \<in> set (preorder forest). selectedFile app = Some nd)"
    by (auto simp: App_inv_def split: option.splits)
next
  fix pA pB a b
  assume h: "rowAt pA (fileTree app) = Some a \<and> type (node a) = File
           \<and> rowAt pB (fileTree app) = Some b \<and> type (node b) = File"
  then have ra: "rowAt pA (fileTree app) = Some a" and fa: "type (node a) = File"
    and rb: "rowAt pB (fileTree app) = Some b" and fb: "type (node b) = File"
    by simp_all
  have ca: "click pA app = setSelectedFile (node a) app"
    by (rule click_file [OF ra fa])
  then show "selectedFile (click pA app) = Some (node a)"
    by (simp add: setSelectedFile_def)
  have "rowAt pB (fileTree (click pA app)) = Some b"
    by (simp add: ca setSelectedFile_def rb)
  then have "click pB (click pA app) = setSelectedFile (node b) (click pA app)"
    by (rule click_file [OF _ fb])
  then show sb: "selectedFile (click pB (click pA app)) = Some (node b)"
    by (simp add: setSelectedFile_def)
  from sb show "isSelected (selectedFile (click pB (click pA app))) (node b)"
    by (simp add: isSelected_iff)
  {
    assume "node a \<noteq> node b"
    with sb show "selectedFile (click pB (click pA app)) \<noteq> Some (node a)"
      by simp
  }
  assume "(name (node a), content (node a)) \<noteq> (name (node b), content (node b))"
  with sb show "\<not> isSelected (selectedFile (click pB (click pA app))) (node a)"
    by (auto simp: isSelected_iff)
next
  fix qs
  assume "selectedFile app \<noteq> None"
  then show "selectedFile (clicks qs app) \<noteq> None"
    by (rule clicks_keeps_selection)
qed

text \<open>
  Scenario A, after a click on \<open>a.go\<close>: the store holds \<open>a.go\<close>; a click on
  \<open>protocol.md\<close> and then on \<open>a.go\<close> leaves \<open>a.go\<close> and not \<open>protocol.md\<close>; collapsing and
  expanding the root does not empty the store.
\<close>

theorem selection_exclusive_witness:
  "App_mount scenario_A = Inr scenario_A_app
   \<and> selectedFile (clicks [[0, 1]] scenario_A_app) = Some a_go
   \<and> a_go \<in> set (preorder scenario_A)
   \<and> selectedFile (click [0, 0] (clicks [[0, 1]] scenario_A_app)) = Some protocol_md
   \<and> selectedFile (click [0, 1] (click [0, 0] (clicks [[0, 1]] scenario_A_app))) = Some a_go
   \<and> selectedFile (click [0, 1] (click [0, 0] (clicks [[0, 1]] scenario_A_app)))
       \<noteq> Some protocol_md
   \<and> selectedFile (clicks [[0], [0]] (clicks [[0, 1]] scenario_A_app)) \<noteq> None"
proof -
  let ?app = "clicks [[0, 1]] scenario_A_app"
  have app: "?app = scenario_A_app\<lparr>selectedFile := Some a_go, writes := [protocol_md, a_go]\<rparr>"
    by (simp only: clicks.simps click_a_go)
  have ft: "fileTree ?app = fileTree scenario_A_app"
    unfolding app by simp
  have ty: "type (node (FileTreeNode protocol_md True [])) = File"
    "type (node (FileTreeNode a_go True [])) = File"
    by (simp_all add: scenario_A_defs)
  have rows: "rowAt [0, 0] (fileTree ?app) = Some (FileTreeNode protocol_md True [])
           \<and> type (node (FileTreeNode protocol_md True [])) = File
           \<and> rowAt [0, 1] (fileTree ?app) = Some (FileTreeNode a_go True [])
           \<and> type (node (FileTreeNode a_go True [])) = File"
    unfolding ft using rowAt_protocol_md rowAt_a_go ty by blast
  have ne: "node (FileTreeNode protocol_md True []) \<noteq> node (FileTreeNode a_go True [])"
    by (simp add: scenario_A_defs)
  have sel: "selectedFile ?app \<noteq> None"
    unfolding app by simp
  note t = selection_exclusive [OF mount_scenario_A refl, of "[[0, 1]]"]
  from t have 1: "selectedFile ?app = None
       \<or> (\<exists>nd \<in> set (preorder scenario_A). selectedFile ?app = Some nd)"
    by (rule conjunct1)
  from t [THEN conjunct2, THEN conjunct1] rows ne
  have 2: "selectedFile (click [0, 0] ?app) = Some (node (FileTreeNode protocol_md True []))
       \<and> selectedFile (click [0, 1] (click [0, 0] ?app)) = Some (node (FileTreeNode a_go True []))
       \<and> selectedFile (click [0, 1] (click [0, 0] ?app))
           \<noteq> Some (node (FileTreeNode protocol_md True []))"
    by blast
  from t [THEN conjunct2, THEN conjunct2] sel
  have 3: "selectedFile (clicks [[0], [0]] ?app) \<noteq> None"
    by blast
  have 4: "selectedFile ?app = Some a_go"
    unfolding app by simp
  from 1 4 have 5: "a_go \<in> set (preorder scenario_A)"
    by auto
  from 2 3 4 5 mount_scenario_A show ?thesis
    by (simp add: protocol_md_def a_go_def)
qed

text \<open>
  Claim C3, as the code has it. Mounting over a forest with a first root runs the
  resolver once, over the children of that first root only (over no nodes when it has
  none); the store is written once, with the node found, when there is one, and not
  written, staying empty, when there is none. For Scenario A the store then holds
  \<open>protocol.md\<close>. Afterwards a click either leaves the store and its history as they
  were, or it is a click on a file row and writes that row's node: the selection
  callback is the only other writer.
\<close>

theorem mount_default_selection:
  "App_mount (root # rest) =
     Inr \<lparr>selectedFile = findDefaultFile (case children root of None \<Rightarrow> [] | Some cs \<Rightarrow> cs),
          fileTree = mountTree (root # rest),
          writes = (case findDefaultFile (case children root of None \<Rightarrow> [] | Some cs \<Rightarrow> cs) of
                      None \<Rightarrow> [] | Some f \<Rightarrow> [f])\<rparr>
   \<and> App_mount scenario_A = Inr scenario_A_app
   \<and> selectedFile scenario_A_app = Some protocol_md
   \<and> writes scenario_A_app = [protocol_md]
   \<and> (selectedFile (click p app) = selectedFile app \<and> writes (click p app) = writes app
      \<or> (\<exists>inst. rowAt p (fileTree app) = Some inst \<and> type (node inst) = File
            \<and> selectedFile (click p app) = Some (node inst)
            \<and> writes (click p app) = writes app @ [node inst]))"
proof (intro conjI)
  show "selectedFile (click p app) = selectedFile app \<and> writes (click p app) = writes app
      \<or> (\<exists>inst. rowAt p (fileTree app) = Some inst \<and> type (node inst) = File
            \<and> selectedFile (click p app) = Some (node inst)
            \<and> writes (click p app) = writes app @ [node inst])"
  proof (cases "rowAt p (fileTree app)")
    case None
    then show ?thesis by (simp add: click_nothing)
  next
    case (Some inst)
    show ?thesis
    proof (cases "type (node inst)")
      case File
      from click_file [OF Some File] Some File show ?thesis
        by (simp add: setSelectedFile_def)
    next
      case Directory
      from click_directory [OF Some Directory] show ?thesis by simp
    qed
  qed
qed (simp_all add: App_mount_Inr mount_scenario_A scenario_A_app_def)

text \<open>
  The claim as stated fails on the forest whose only root is the file \<open>protocol.md\<close>:
  the resolver over the forest finds that node, but the mounted application has an
  empty store, which was never written.
\<close>

theorem mount_not_resolver_of_forest:
  "findDefaultFile sentinel_at_root = Some protocol_md
   \<and> App_mount sentinel_at_root =
       Inr \<lparr>selectedFile = None, fileTree = [FileTreeNode protocol_md True []], writes = []\<rparr>"
  by (simp add: App_mount_def sentinel_at_root_def protocol_md_def)

section \<open>The tree starts fully expanded\<close>

text \<open>
  Claim C8. On the first render every component, at whatever depth, has its flag true,
  so the rows shown are those of all the nodes, in pre-order, each padded for its
  depth. The same holds of the components mounted by expanding a closed directory,
  whatever was clicked before. The rows of an open directory with children are its own
  row and then the rows of the components below it, one level deeper; of a closed one,
  its own row only. In every state reached by clicks from the mounted application, the
  components below an open row are those of the node's children, in their stored order.
\<close>

theorem initially_expanded:
  "(\<forall>q x. rowAt q (mountTree forest) = Some x \<longrightarrow> isOpen x)
   \<and> FileTree sel level (mountTree forest) =
       map (\<lambda>(nd, d). FileTreeNode_row sel d nd True) (preorder_depth level forest)
   \<and> (\<forall>p inst q x. rowAt p (fileTree app) = Some inst \<and> type (node inst) = Directory
         \<and> \<not> isOpen inst \<and> strict_prefix p q \<and> rowAt q (fileTree (click p app)) = Some x
       \<longrightarrow> isOpen x)
   \<and> (children nd \<noteq> None \<longrightarrow>
        FileTree sel level (FileTreeNode nd True sub # rest) =
          FileTreeNode_row sel level nd True
          # FileTree sel (level + 1) sub @ FileTree sel level rest)
   \<and> FileTree sel level (FileTreeNode nd False sub # rest) =
       FileTreeNode_row sel level nd False # FileTree sel level rest
   \<and> (\<forall>app0 ps p inst cs. App_mount forest = Inr app0
         \<and> rowAt p (fileTree (clicks ps app0)) = Some inst
         \<and> isOpen inst \<and> children (node inst) = Some cs
       \<longrightarrow> map node (subtree inst) = cs)"
proof (intro conjI allI impI)
  fix q x
  assume "rowAt q (mountTree forest) = Some x"
  then show "isOpen x" by (rule rowAt_mountTree_open)
next
  show "FileTree sel level (mountTree forest) =
       map (\<lambda>(nd, d). FileTreeNode_row sel d nd True) (preorder_depth level forest)"
    by (rule FileTree_mountTree)
next
  fix p inst q x
  assume h: "rowAt p (fileTree app) = Some inst \<and> type (node inst) = Directory
         \<and> \<not> isOpen inst \<and> strict_prefix p q \<and> rowAt q (fileTree (click p app)) = Some x"
  then have r: "rowAt p (fileTree app) = Some inst" and d: "type (node inst) = Directory"
    and c: "\<not> isOpen inst" and sp: "strict_prefix p q" by simp_all
  from h c have "rowAt q (setIsOpenAt p True (fileTree app)) = Some x"
    unfolding click_directory [OF r d] by simp
  with r c sp show "isOpen x" by (rule rowAt_below_expand)
next
  assume "children nd \<noteq> None"
  then show "FileTree sel level (FileTreeNode nd True sub # rest) =
          FileTreeNode_row sel level nd True
          # FileTree sel (level + 1) sub @ FileTree sel level rest"
    by simp
next
  show "FileTree sel level (FileTreeNode nd False sub # rest) =
       FileTreeNode_row sel level nd False # FileTree sel level rest"
    by simp
next
  fix app0 ps p inst cs
  assume h: "App_mount forest = Inr app0
         \<and> rowAt p (fileTree (clicks ps app0)) = Some inst
         \<and> isOpen inst \<and> children (node inst) = Some cs"
  then have "App_inv forest (clicks ps app0)"
    by (simp add: App_mount_inv clicks_inv)
  then have "consistent (fileTree (clicks ps app0))"
    by (simp add: App_inv_def)
  with h have "consistent [inst]"
    by (auto intro: consistent_rowAt)
  with h show "map node (subtree inst) = cs"
    by (auto dest: consistent_open_subtree)
qed

text \<open>
  The mounted \<open>two_matches\<close>: the file two levels down is on an open row; the four rows are
  padded 8, 20, 32 and 20; with \<open>abi\<close> collapsed its file's row is gone; after \<open>abi\<close> is
  expanded again that row is back, open.
\<close>

theorem initially_expanded_witness:
  "rowAt [0, 0, 0] (mountTree two_matches) = Some (FileTreeNode deep_md True [])
   \<and> isOpen (FileTreeNode deep_md True [])
   \<and> FileTree None 0 (mountTree two_matches) =
       [\<lparr>label = ''root'', highlighted = False, paddingLeft = 8, chevron = Some True\<rparr>,
        \<lparr>label = ''abi'', highlighted = False, paddingLeft = 20, chevron = Some True\<rparr>,
        \<lparr>label = ''protocol.md'', highlighted = False, paddingLeft = 32, chevron = None\<rparr>,
        \<lparr>label = ''protocol.md'', highlighted = False, paddingLeft = 20, chevron = None\<rparr>]
   \<and> FileTree None 0 (fileTree (click [0, 0] two_matches_app)) =
       [\<lparr>label = ''root'', highlighted = False, paddingLeft = 8, chevron = Some True\<rparr>,
        \<lparr>label = ''abi'', highlighted = False, paddingLeft = 20, chevron = Some False\<rparr>,
        \<lparr>label = ''protocol.md'', highlighted = False, paddingLeft = 20, chevron = None\<rparr>]
   \<and> rowAt [0, 0] (fileTree (click [0, 0] two_matches_app)) = Some (FileTreeNode abi False [])
   \<and> rowAt [0, 0, 0] (fileTree (click [0, 0] (click [0, 0] two_matches_app))) =
       Some (FileTreeNode deep_md True [])
   \<and> children abi = Some [deep_md]
   \<and> map node (subtree (FileTreeNode abi True [FileTreeNode deep_md True []])) = [deep_md]"
proof -
  let ?closed = "click [0, 0] two_matches_app"
  note t = initially_expanded [where forest = two_matches and sel = None and level = 0
      and app = ?closed and nd = abi and sub = "[]"
      and rest = "[FileTreeNode shallow_md True []]"]
  have deep: "rowAt [0, 0, 0] (mountTree two_matches) = Some (FileTreeNode deep_md True [])"
    by (simp add: two_matches_def two_matches_defs)
  from t deep have 1: "isOpen (FileTreeNode deep_md True [])"
    by blast
  from t have "FileTree None 0 (mountTree two_matches) =
       map (\<lambda>(nd, d). FileTreeNode_row None d nd True) (preorder_depth 0 two_matches)"
    by blast
  then have 2: "FileTree None 0 (mountTree two_matches) =
       [\<lparr>label = ''root'', highlighted = False, paddingLeft = 8, chevron = Some True\<rparr>,
        \<lparr>label = ''abi'', highlighted = False, paddingLeft = 20, chevron = Some True\<rparr>,
        \<lparr>label = ''protocol.md'', highlighted = False, paddingLeft = 32, chevron = None\<rparr>,
        \<lparr>label = ''protocol.md'', highlighted = False, paddingLeft = 20, chevron = None\<rparr>]"
    by (simp add: two_matches_def two_matches_defs FileTreeNode_row_def isSelected_def)
  have row_closed: "rowAt [0, 0] (fileTree ?closed) = Some (FileTreeNode abi False [])"
    unfolding click_abi by (simp add: two_matches_defs)
  have row_back: "rowAt [0, 0, 0] (fileTree (click [0, 0] ?closed)) =
       Some (FileTreeNode deep_md True [])"
    unfolding click_abi_twice by (simp add: two_matches_app_def two_matches_defs)
  have hyp: "rowAt [0, 0] (fileTree ?closed) = Some (FileTreeNode abi False [])
      \<and> type (node (FileTreeNode abi False [])) = Directory
      \<and> \<not> isOpen (FileTreeNode abi False [])
      \<and> strict_prefix [0, 0] [0, 0, 0::nat]
      \<and> rowAt [0, 0, 0] (fileTree (click [0, 0] ?closed)) = Some (FileTreeNode deep_md True [])"
    using row_closed row_back by (simp add: abi_def)
  from t hyp have 3: "isOpen (FileTreeNode deep_md True [])"
    by blast
  note t1 = initially_expanded [where sel = None and level = 1 and nd = abi and sub = "[]"
      and rest = "[FileTreeNode shallow_md True []]"]
  from t1 have "FileTree None 1 (FileTreeNode abi False [] # [FileTreeNode shallow_md True []]) =
       FileTreeNode_row None 1 abi False # FileTree None 1 [FileTreeNode shallow_md True []]"
    by blast
  then have 4: "FileTree None 0 (fileTree ?closed) =
       [\<lparr>label = ''root'', highlighted = False, paddingLeft = 8, chevron = Some True\<rparr>,
        \<lparr>label = ''abi'', highlighted = False, paddingLeft = 20, chevron = Some False\<rparr>,
        \<lparr>label = ''protocol.md'', highlighted = False, paddingLeft = 20, chevron = None\<rparr>]"
    unfolding click_abi by (simp add: two_matches_defs FileTreeNode_row_def isSelected_def)
  have reach: "App_mount two_matches = Inr two_matches_app
      \<and> rowAt [0, 0] (fileTree (clicks [[0, 0], [0, 0]] two_matches_app)) =
          Some (FileTreeNode abi True [FileTreeNode deep_md True []])
      \<and> isOpen (FileTreeNode abi True [FileTreeNode deep_md True []])
      \<and> children (node (FileTreeNode abi True [FileTreeNode deep_md True []])) = Some [deep_md]"
    using mount_two_matches rowAt_abi
    by (simp add: click_abi_twice abi_def del: rowAt.simps)
  from t reach
  have 5: "map node (subtree (FileTreeNode abi True [FileTreeNode deep_md True []])) = [deep_md]"
    by blast
  from 1 2 3 4 5 deep row_closed row_back show ?thesis
    by (simp add: abi_def)
qed

end
